theory Spec2Isabelle
  imports Complex_Main
begin

section \<open>Values of the program\<close>

subsection \<open>Python floats as scores\<close>

text \<open>
  The search engines of \<^verbatim>\<open>game_agent.py\<close> only compare scores (\<^verbatim>\<open><\<close>, \<^verbatim>\<open>>\<close>,
  \<^verbatim>\<open><=\<close>, \<^verbatim>\<open>>=\<close>, \<^verbatim>\<open>min\<close>, \<^verbatim>\<open>max\<close>) and start from \<^verbatim>\<open>float('inf')\<close> and
  \<^verbatim>\<open>float('-inf')\<close>. A score is therefore a finite number or one of the two infinities.
  The evaluators of the file never produce a NaN, so none is modelled.
\<close>

datatype pyfloat = NegInf | Fin real | PosInf

instantiation pyfloat :: linorder
begin

fun less_eq_pyfloat :: "pyfloat \<Rightarrow> pyfloat \<Rightarrow> bool" where
  "less_eq_pyfloat NegInf y = True"
| "less_eq_pyfloat (Fin x) NegInf = False"
| "less_eq_pyfloat (Fin x) (Fin y) = (x \<le> y)"
| "less_eq_pyfloat (Fin x) PosInf = True"
| "less_eq_pyfloat PosInf PosInf = True"
| "less_eq_pyfloat PosInf y = False"

definition less_pyfloat :: "pyfloat \<Rightarrow> pyfloat \<Rightarrow> bool" where
  "less_pyfloat x y = (x \<le> y \<and> \<not> y \<le> x)"

instance
proof
  fix x y z :: pyfloat
  show "(x < y) = (x \<le> y \<and> \<not> y \<le> x)"
    by (simp add: less_pyfloat_def)
  show "x \<le> x"
    by (cases x) simp_all
  show "x \<le> y \<Longrightarrow> y \<le> z \<Longrightarrow> x \<le> z"
    by (cases x; cases y; cases z) simp_all
  show "x \<le> y \<Longrightarrow> y \<le> x \<Longrightarrow> x = y"
    by (cases x; cases y) simp_all
  show "x \<le> y \<or> y \<le> x"
    by (cases x; cases y) auto
qed

end

text \<open>What a Python function of the file can hand back: a float or a string.\<close>

datatype pyval = PyFloat pyfloat | PyStr string

datatype pyerr = ZeroDivisionError

subsection \<open>Moves and game states\<close>

text \<open>A move is a pair of board coordinates; \<^verbatim>\<open>(-1, -1)\<close> stands for "no move".\<close>

type_synonym move = "int \<times> int"

definition NO_MOVE :: move where
  "NO_MOVE = (-1, -1)"

text \<open>
  Modelled from the spec: the Game State View (\<^verbatim>\<open>isolation.Board\<close> is not part of
  the sources). The search only asks a snapshot for the legal moves of the player to move
  (\<^verbatim>\<open>get_legal_moves()\<close>, in enumeration order) and for the successor after each of them
  (\<^verbatim>\<open>forecast_move(move)\<close>, a fresh snapshot). A snapshot is therefore its finite game
  tree: what an evaluator can see of the position, and the list of legal moves, each with
  the successor snapshot. Every move of the game removes a cell from play, so the game
  tree is finite. \<^verbatim>\<open>get_move\<close> is called on the player's own turn, where
  \<^verbatim>\<open>get_legal_moves(self)\<close> and \<^verbatim>\<open>get_legal_moves()\<close> are the same list.
\<close>

datatype 'a board = Board (view: 'a) (children: "(move \<times> 'a board) list")

definition get_legal_moves :: "'a board \<Rightarrow> move list" where
  "get_legal_moves game = map fst (children game)"

subsection \<open>Players, the deadline clock and cancellation\<close>

datatype exn = SearchTimeout

text \<open>
  \<^verbatim>\<open>IsolationPlayer.__init__\<close>: the four attributes of a player. \<^verbatim>\<open>time_left\<close> is a
  callable; \<open>time_left self i\<close> is what its call number \<open>i\<close> (counted from 0) returns.
  Every search function takes the number of calls made so far and returns it updated,
  also when it raises.
\<close>

record 'a player =
  search_depth :: int
  score :: "'a board \<Rightarrow> pyfloat"
  time_left :: "nat \<Rightarrow> real"
  TIMER_THRESHOLD :: real

section \<open>MinimaxPlayer\<close>

text \<open>
  \<^verbatim>\<open>min_play\<close> and \<^verbatim>\<open>max_play\<close>, each with its \<^verbatim>\<open>for move in legal_moves\<close> loop.
  \<open>depth\<close> is a Python integer: below zero the test \<^verbatim>\<open>depth == 0\<close> never holds.
\<close>

function (sequential)
  min_play :: "'a player \<Rightarrow> 'a board \<Rightarrow> int \<Rightarrow> nat \<Rightarrow> (exn + pyfloat) \<times> nat"
  and min_play_loop ::
    "'a player \<Rightarrow> (move \<times> 'a board) list \<Rightarrow> int \<Rightarrow> pyfloat \<Rightarrow> nat \<Rightarrow> (exn + pyfloat) \<times> nat"
  and max_play :: "'a player \<Rightarrow> 'a board \<Rightarrow> int \<Rightarrow> nat \<Rightarrow> (exn + pyfloat) \<times> nat"
  and max_play_loop ::
    "'a player \<Rightarrow> (move \<times> 'a board) list \<Rightarrow> int \<Rightarrow> pyfloat \<Rightarrow> nat \<Rightarrow> (exn + pyfloat) \<times> nat"
where
  "min_play self (Board v kids) depth t =
     (if time_left self t < TIMER_THRESHOLD self then (Inl SearchTimeout, Suc t)
      else if depth = 0 \<or> kids = [] then (Inr (score self (Board v kids)), Suc t)
      else min_play_loop self kids depth PosInf (Suc t))"
| "min_play_loop self [] depth lowest_score t = (Inr lowest_score, t)"
| "min_play_loop self ((move, future_state_min) # rest) depth lowest_score t =
     (case max_play self future_state_min (depth - 1) t of
        (Inl e, t') \<Rightarrow> (Inl e, t')
      | (Inr v, t') \<Rightarrow> min_play_loop self rest depth (min lowest_score v) t')"
| "max_play self (Board v kids) depth t =
     (if time_left self t < TIMER_THRESHOLD self then (Inl SearchTimeout, Suc t)
      else if depth = 0 \<or> kids = [] then (Inr (score self (Board v kids)), Suc t)
      else max_play_loop self kids depth NegInf (Suc t))"
| "max_play_loop self [] depth highest_score t = (Inr highest_score, t)"
| "max_play_loop self ((move, future_state_max) # rest) depth highest_score t =
     (case min_play self future_state_max (depth - 1) t of
        (Inl e, t') \<Rightarrow> (Inl e, t')
      | (Inr v, t') \<Rightarrow> max_play_loop self rest depth (max highest_score v) t')"
  by pat_completeness auto

termination
  by (relation "measure (\<lambda>x. case x of
        Inl (Inl (self, g, depth, t)) \<Rightarrow> size g
      | Inl (Inr (self, kids, depth, acc, t)) \<Rightarrow> size_list (size_prod (\<lambda>_. 0) size) kids
      | Inr (Inl (self, g, depth, t)) \<Rightarrow> size g
      | Inr (Inr (self, kids, depth, acc, t)) \<Rightarrow> size_list (size_prod (\<lambda>_. 0) size) kids)")
    auto

text \<open>The loop of \<^verbatim>\<open>minimax\<close> over the legal moves, and \<^verbatim>\<open>minimax\<close> itself.\<close>

fun minimax_loop ::
  "'a player \<Rightarrow> (move \<times> 'a board) list \<Rightarrow> int \<Rightarrow> pyfloat \<Rightarrow> move \<Rightarrow> nat \<Rightarrow> (exn + move) \<times> nat"
where
  "minimax_loop self [] depth best_score best_move t = (Inr best_move, t)"
| "minimax_loop self ((move, future_state) # rest) depth best_score best_move t =
     (case min_play self future_state (depth - 1) t of
        (Inl e, t') \<Rightarrow> (Inl e, t')
      | (Inr sc, t') \<Rightarrow>
          if sc > best_score then minimax_loop self rest depth sc move t'
          else minimax_loop self rest depth best_score best_move t')"

definition minimax :: "'a player \<Rightarrow> 'a board \<Rightarrow> int \<Rightarrow> nat \<Rightarrow> (exn + move) \<times> nat" where
  "minimax self game depth t =
     (if time_left self t < TIMER_THRESHOLD self then (Inl SearchTimeout, Suc t)
      else case get_legal_moves game of
             [] \<Rightarrow> (Inr NO_MOVE, Suc t)
           | m0 # _ \<Rightarrow> minimax_loop self (children game) depth NegInf m0 (Suc t))"

text \<open>
  \<^verbatim>\<open>MinimaxPlayer.get_move\<close>: one call of \<^verbatim>\<open>minimax\<close> at \<^verbatim>\<open>self.search_depth\<close> with
  the clock of this decision; the second component is the number of clock readings taken.
\<close>

definition MinimaxPlayer_get_move :: "'a player \<Rightarrow> 'a board \<Rightarrow> (nat \<Rightarrow> real) \<Rightarrow> move \<times> nat" where
  "MinimaxPlayer_get_move self0 game clock =
     (let self = self0\<lparr>time_left := clock\<rparr>;
          best_move = NO_MOVE
      in case minimax self game (search_depth self) 0 of
           (Inr m, t') \<Rightarrow> (m, t')
         | (Inl SearchTimeout, t') \<Rightarrow> (best_move, t'))"

section \<open>AlphaBetaPlayer\<close>

function (sequential)
  ab_min_play ::
    "'a player \<Rightarrow> 'a board \<Rightarrow> int \<Rightarrow> pyfloat \<Rightarrow> pyfloat \<Rightarrow> nat \<Rightarrow> (exn + pyfloat) \<times> nat"
  and ab_min_play_loop ::
    "'a player \<Rightarrow> (move \<times> 'a board) list \<Rightarrow> int \<Rightarrow> pyfloat \<Rightarrow> pyfloat \<Rightarrow> pyfloat \<Rightarrow> nat
       \<Rightarrow> (exn + pyfloat) \<times> nat"
  and ab_max_play ::
    "'a player \<Rightarrow> 'a board \<Rightarrow> int \<Rightarrow> pyfloat \<Rightarrow> pyfloat \<Rightarrow> nat \<Rightarrow> (exn + pyfloat) \<times> nat"
  and ab_max_play_loop ::
    "'a player \<Rightarrow> (move \<times> 'a board) list \<Rightarrow> int \<Rightarrow> pyfloat \<Rightarrow> pyfloat \<Rightarrow> pyfloat \<Rightarrow> nat
       \<Rightarrow> (exn + pyfloat) \<times> nat"
where
  "ab_min_play self (Board v kids) depth alpha beta t =
     (if time_left self t < TIMER_THRESHOLD self then (Inl SearchTimeout, Suc t)
      else if depth = 0 \<or> kids = [] then (Inr (score self (Board v kids)), Suc t)
      else ab_min_play_loop self kids depth alpha beta PosInf (Suc t))"
| "ab_min_play_loop self [] depth alpha beta lowest_score t = (Inr beta, t)"
| "ab_min_play_loop self ((move, future_state_min) # rest) depth alpha beta lowest_score t =
     (case ab_max_play self future_state_min (depth - 1) alpha beta t of
        (Inl e, t') \<Rightarrow> (Inl e, t')
      | (Inr v, t') \<Rightarrow>
          (let lowest_score' = min lowest_score v;
               beta' = min beta lowest_score'
           in if beta' \<le> alpha then (Inr beta', t')
              else ab_min_play_loop self rest depth alpha beta' lowest_score' t'))"
| "ab_max_play self (Board v kids) depth alpha beta t =
     (if time_left self t < TIMER_THRESHOLD self then (Inl SearchTimeout, Suc t)
      else if depth = 0 \<or> kids = [] then (Inr (score self (Board v kids)), Suc t)
      else ab_max_play_loop self kids depth alpha beta NegInf (Suc t))"
| "ab_max_play_loop self [] depth alpha beta highest_score t = (Inr alpha, t)"
| "ab_max_play_loop self ((move, future_state_max) # rest) depth alpha beta highest_score t =
     (case ab_min_play self future_state_max (depth - 1) alpha beta t of
        (Inl e, t') \<Rightarrow> (Inl e, t')
      | (Inr v, t') \<Rightarrow>
          (let highest_score' = max highest_score v;
               alpha' = max alpha highest_score'
           in if alpha' \<ge> beta then (Inr alpha', t')
              else ab_max_play_loop self rest depth alpha' beta highest_score' t'))"
  by pat_completeness auto

termination
  by (relation "measure (\<lambda>x. case x of
        Inl (Inl (self, g, depth, alpha, beta, t)) \<Rightarrow> size g
      | Inl (Inr (self, kids, depth, alpha, beta, acc, t)) \<Rightarrow>
          size_list (size_prod (\<lambda>_. 0) size) kids
      | Inr (Inl (self, g, depth, alpha, beta, t)) \<Rightarrow> size g
      | Inr (Inr (self, kids, depth, alpha, beta, acc, t)) \<Rightarrow>
          size_list (size_prod (\<lambda>_. 0) size) kids)")
    auto

text \<open>
  The loop of \<^verbatim>\<open>alphabeta\<close>: \<open>beta\<close> is the bound the caller passed and is never
  changed; \<open>alpha\<close> is raised after every child.
\<close>

function (sequential) alphabeta_loop ::
  "'a player \<Rightarrow> (move \<times> 'a board) list \<Rightarrow> int \<Rightarrow> pyfloat \<Rightarrow> pyfloat \<Rightarrow> pyfloat \<Rightarrow> move \<Rightarrow> nat
     \<Rightarrow> (exn + move) \<times> nat"
where
  "alphabeta_loop self [] depth alpha beta best_score best_move t = (Inr best_move, t)"
| "alphabeta_loop self ((move, future_state) # rest) depth alpha beta best_score best_move t =
     (case ab_min_play self future_state (depth - 1) alpha beta t of
        (Inl e, t') \<Rightarrow> (Inl e, t')
      | (Inr sc, t') \<Rightarrow>
          if sc > beta then (Inr move, t')
          else if sc > best_score
            then alphabeta_loop self rest depth (max alpha sc) beta sc move t'
            else alphabeta_loop self rest depth (max alpha sc) beta best_score best_move t')"
  by pat_completeness auto

termination
  by (relation "measure (\<lambda>(self, kids, depth, alpha, beta, best_score, best_move, t). length kids)")
    auto

definition alphabeta ::
  "'a player \<Rightarrow> 'a board \<Rightarrow> int \<Rightarrow> pyfloat \<Rightarrow> pyfloat \<Rightarrow> nat \<Rightarrow> (exn + move) \<times> nat" where
  "alphabeta self game depth alpha beta t =
     (if time_left self t < TIMER_THRESHOLD self then (Inl SearchTimeout, Suc t)
      else case get_legal_moves game of
             [] \<Rightarrow> (Inr NO_MOVE, Suc t)
           | m0 # _ \<Rightarrow> alphabeta_loop self (children game) depth alpha beta NegInf m0 (Suc t))"

text \<open>
  \<^verbatim>\<open>AlphaBetaPlayer.get_move\<close>. The \<^verbatim>\<open>while True\<close> loop ends only when a search raises
  \<^verbatim>\<open>SearchTimeout\<close>: under a clock that never runs low it does not return, which is
  the value \<open>None\<close> here. \<^verbatim>\<open>alphabeta\<close> is called with its default window.
\<close>

partial_function (option) AlphaBetaPlayer_deepen ::
  "'a player \<Rightarrow> 'a board \<Rightarrow> int \<Rightarrow> move \<Rightarrow> nat \<Rightarrow> move option"
where
  "AlphaBetaPlayer_deepen self game depth best_move t =
     (case alphabeta self game depth NegInf PosInf t of
        (Inl e, t') \<Rightarrow> Some best_move
      | (Inr m, t') \<Rightarrow> AlphaBetaPlayer_deepen self game (depth + 1) m t')"

definition AlphaBetaPlayer_get_move :: "'a player \<Rightarrow> 'a board \<Rightarrow> (nat \<Rightarrow> real) \<Rightarrow> move option" where
  "AlphaBetaPlayer_get_move self0 game clock =
     (let self = self0\<lparr>time_left := clock\<rparr>
      in case get_legal_moves game of
           [] \<Rightarrow> Some NO_MOVE
         | m0 # _ \<Rightarrow> AlphaBetaPlayer_deepen self game 1 m0 0)"

section \<open>Heuristic evaluators\<close>

text \<open>
  Modelled from the spec: what the evaluators ask of \<^verbatim>\<open>isolation.Board\<close> (not part of
  the sources): the terminal tests, the legal moves of a given player, the opponent, the
  board dimensions and the blank cells. The evaluators compute on small integers and one
  quotient; floats are read as the numbers they stand for.
\<close>

record 'p isolation_board =
  is_winner :: "'p \<Rightarrow> bool"
  is_loser :: "'p \<Rightarrow> bool"
  legal_moves_of :: "'p \<Rightarrow> move list"
  get_opponent :: "'p \<Rightarrow> 'p"
  height :: int
  width :: int
  get_blank_spaces :: "move list"

definition opp_diff :: "'p isolation_board \<Rightarrow> 'p \<Rightarrow> pyval" where
  "opp_diff game player =
     (if is_winner game player then PyFloat PosInf
      else if is_loser game player then PyFloat NegInf
      else PyFloat (Fin (of_int (int (length (legal_moves_of game player))
             - int (length (legal_moves_of game (get_opponent game player)))))))"

definition opp_diff_defensive :: "'p isolation_board \<Rightarrow> 'p \<Rightarrow> pyval" where
  "opp_diff_defensive game player =
     (if is_winner game player then PyFloat PosInf
      else if is_loser game player then PyFloat NegInf
      else (let player_moves = legal_moves_of game player;
                opponent_moves = legal_moves_of game (get_opponent game player);
                theta = 2
            in PyFloat (Fin (of_int (theta * int (length player_moves)
                 - int (length opponent_moves))))))"

definition opp_diff_aggressive :: "'p isolation_board \<Rightarrow> 'p \<Rightarrow> pyval" where
  "opp_diff_aggressive game player =
     (if is_winner game player then PyFloat PosInf
      else if is_loser game player then PyStr ''-inf''
      else (let player_moves = legal_moves_of game player;
                opponent_moves = legal_moves_of game (get_opponent game player);
                theta = 2
            in PyFloat (Fin (of_int (int (length player_moves)
                 - theta * int (length opponent_moves))))))"

definition opp_diff_decay :: "'p isolation_board \<Rightarrow> 'p \<Rightarrow> pyerr + pyval" where
  "opp_diff_decay game player =
     (if is_winner game player then Inr (PyFloat PosInf)
      else if is_loser game player then Inr (PyFloat NegInf)
      else (let player_moves = int (length (legal_moves_of game player));
                opponent_moves = int (length (legal_moves_of game (get_opponent game player)))
            in if height game * width game = 0 then Inl ZeroDivisionError
               else (let game_ratio = real_of_int (height game * width game
                             - int (length (get_blank_spaces game)))
                           / real_of_int (height game * width game);
                         theta = 3
                     in Inr (PyFloat (Fin ((1 - game_ratio) * theta * of_int player_moves
                          - game_ratio * of_int opponent_moves))))))"

definition custom_score :: "'p isolation_board \<Rightarrow> 'p \<Rightarrow> pyval" where
  "custom_score game player = opp_diff_defensive game player"

definition custom_score_2 :: "'p isolation_board \<Rightarrow> 'p \<Rightarrow> pyval" where
  "custom_score_2 game player = opp_diff game player"

definition custom_score_3 :: "'p isolation_board \<Rightarrow> 'p \<Rightarrow> pyerr + pyval" where
  "custom_score_3 game player = opp_diff_decay game player"

section \<open>Notions used to state the properties\<close>

text \<open>
  The state of the loop of \<^verbatim>\<open>alphabeta\<close> after it has gone through all of the given
  moves: the raised \<open>alpha\<close>, \<open>best_score\<close>, \<open>best_move\<close> and the clock. \<open>None\<close> when
  the loop was left before (a search raised, or a score exceeded \<open>beta\<close>).
\<close>

function (sequential) alphabeta_prefix ::
  "'a player \<Rightarrow> (move \<times> 'a board) list \<Rightarrow> int \<Rightarrow> pyfloat \<Rightarrow> pyfloat \<Rightarrow> pyfloat \<Rightarrow> move \<Rightarrow> nat
     \<Rightarrow> (pyfloat \<times> pyfloat \<times> move \<times> nat) option"
where
  "alphabeta_prefix self [] depth alpha beta best_score best_move t =
     Some (alpha, best_score, best_move, t)"
| "alphabeta_prefix self ((move, future_state) # rest) depth alpha beta best_score best_move t =
     (case ab_min_play self future_state (depth - 1) alpha beta t of
        (Inl e, t') \<Rightarrow> None
      | (Inr sc, t') \<Rightarrow>
          if sc > beta then None
          else if sc > best_score
            then alphabeta_prefix self rest depth (max alpha sc) beta sc move t'
            else alphabeta_prefix self rest depth (max alpha sc) beta best_score best_move t')"
  by pat_completeness auto

termination
  by (relation "measure (\<lambda>(self, kids, depth, alpha, beta, best_score, best_move, t). length kids)")
    auto

text \<open>
  The state of the loop of \<^verbatim>\<open>AlphaBetaPlayer.get_move\<close> after \<open>j\<close> searches (depths
  \<open>1\<close> to \<open>j\<close>) have completed: \<open>best_move\<close> and the clock. \<open>None\<close> when one of them
  raised.
\<close>

fun deepen_state :: "'a player \<Rightarrow> 'a board \<Rightarrow> move \<Rightarrow> nat \<Rightarrow> (move \<times> nat) option" where
  "deepen_state self game m0 0 = Some (m0, 0)"
| "deepen_state self game m0 (Suc j) =
     (case deepen_state self game m0 j of
        None \<Rightarrow> None
      | Some (best_move, t) \<Rightarrow>
          (case alphabeta self game (int j + 1) NegInf PosInf t of
             (Inl e, t') \<Rightarrow> None
           | (Inr m, t') \<Rightarrow> Some (m, t')))"

text \<open>
  The spec's words for a search of one ply: the first legal move, in enumeration order,
  whose successor has the highest heuristic value.
\<close>

fun highest_value :: "pyfloat list \<Rightarrow> pyfloat" where
  "highest_value [] = NegInf"
| "highest_value (x # xs) = max x (highest_value xs)"

fun first_with :: "('a board \<Rightarrow> pyfloat) \<Rightarrow> pyfloat \<Rightarrow> (move \<times> 'a board) list \<Rightarrow> move option" where
  "first_with sc h [] = None"
| "first_with sc h ((m, s) # rest) = (if sc s = h then Some m else first_with sc h rest)"

definition first_highest :: "('a board \<Rightarrow> pyfloat) \<Rightarrow> (move \<times> 'a board) list \<Rightarrow> move option" where
  "first_highest sc kids = first_with sc (highest_value (map (\<lambda>(m, s). sc s) kids)) kids"

text \<open>
  The minimax value of a position, without clock: what \<^verbatim>\<open>min_play\<close> and
  \<^verbatim>\<open>max_play\<close> compute when no search is cancelled.
\<close>

function (sequential)
  min_value :: "('a board \<Rightarrow> pyfloat) \<Rightarrow> 'a board \<Rightarrow> int \<Rightarrow> pyfloat"
  and min_value_loop :: "('a board \<Rightarrow> pyfloat) \<Rightarrow> (move \<times> 'a board) list \<Rightarrow> int \<Rightarrow> pyfloat \<Rightarrow> pyfloat"
  and max_value :: "('a board \<Rightarrow> pyfloat) \<Rightarrow> 'a board \<Rightarrow> int \<Rightarrow> pyfloat"
  and max_value_loop :: "('a board \<Rightarrow> pyfloat) \<Rightarrow> (move \<times> 'a board) list \<Rightarrow> int \<Rightarrow> pyfloat \<Rightarrow> pyfloat"
where
  "min_value sc (Board v kids) depth =
     (if depth = 0 \<or> kids = [] then sc (Board v kids) else min_value_loop sc kids depth PosInf)"
| "min_value_loop sc [] depth lowest = lowest"
| "min_value_loop sc ((m, s) # rest) depth lowest =
     min_value_loop sc rest depth (min lowest (max_value sc s (depth - 1)))"
| "max_value sc (Board v kids) depth =
     (if depth = 0 \<or> kids = [] then sc (Board v kids) else max_value_loop sc kids depth NegInf)"
| "max_value_loop sc [] depth highest = highest"
| "max_value_loop sc ((m, s) # rest) depth highest =
     max_value_loop sc rest depth (max highest (min_value sc s (depth - 1)))"
  by pat_completeness auto

termination
  by (relation "measure (\<lambda>x. case x of
        Inl (Inl (sc, g, depth)) \<Rightarrow> size g
      | Inl (Inr (sc, kids, depth, acc)) \<Rightarrow> size_list (size_prod (\<lambda>_. 0) size) kids
      | Inr (Inl (sc, g, depth)) \<Rightarrow> size g
      | Inr (Inr (sc, kids, depth, acc)) \<Rightarrow> size_list (size_prod (\<lambda>_. 0) size) kids)")
    auto

text \<open>
  How the result \<open>r\<close> of a window search relates to the minimax value \<open>v\<close>: exact inside
  the window, on the same side of the bound outside.
\<close>

definition window_ok :: "pyfloat \<Rightarrow> pyfloat \<Rightarrow> pyfloat \<Rightarrow> pyfloat \<Rightarrow> bool" where
  "window_ok alpha beta v r =
     ((v \<le> alpha \<longrightarrow> r \<le> alpha) \<and> (beta \<le> v \<longrightarrow> beta \<le> r) \<and> (alpha < v \<and> v < beta \<longrightarrow> r = v))"

definition min_loop_ok :: "pyfloat \<Rightarrow> pyfloat \<Rightarrow> pyfloat \<Rightarrow> pyfloat \<Rightarrow> bool" where
  "min_loop_ok alpha beta v r =
     (r \<le> beta \<and> (v \<le> alpha \<longrightarrow> r \<le> alpha) \<and> (beta \<le> v \<longrightarrow> r = beta)
      \<and> (alpha < v \<and> v < beta \<longrightarrow> r = v))"

definition max_loop_ok :: "pyfloat \<Rightarrow> pyfloat \<Rightarrow> pyfloat \<Rightarrow> pyfloat \<Rightarrow> bool" where
  "max_loop_ok alpha beta v r =
     (alpha \<le> r \<and> (beta \<le> v \<longrightarrow> beta \<le> r) \<and> (v \<le> alpha \<longrightarrow> r = alpha)
      \<and> (alpha < v \<and> v < beta \<longrightarrow> r = v))"

section \<open>Example positions and players\<close>

text \<open>
  Positions that carry their heuristic value for the searching player, a player that reads
  it, and two clocks: one that never runs low and one that shows 100 ms for the first \<open>n\<close>
  readings and 0 ms afterwards.
\<close>

definition value_player :: "(nat \<Rightarrow> real) \<Rightarrow> pyfloat player" where
  "value_player clock =
     \<lparr>search_depth = 3, score = view, time_left = clock, TIMER_THRESHOLD = 10\<rparr>"

definition steady_clock :: "nat \<Rightarrow> real" where
  "steady_clock i = 100"

definition clock_until :: "nat \<Rightarrow> nat \<Rightarrow> real" where
  "clock_until n i = (if i < n then 100 else 0)"

text \<open>
  \<open>lost\<close>: the searching player is to move and has no move. \<open>won\<close>: the opponent is to
  move and has no move. \<open>reply x\<close>: a position of heuristic value \<open>x\<close> in which the
  opponent has one move, after which the searching player has lost.
\<close>

definition lost :: "pyfloat board" where
  "lost = Board NegInf []"

definition won :: "pyfloat board" where
  "won = Board PosInf []"

definition reply :: "real \<Rightarrow> pyfloat board" where
  "reply x = Board (Fin x) [((1, 1), lost)]"

text \<open>
  Two moves: \<open>(0, 0)\<close> leads to a position of value 5 in which the opponent wins with the
  next move; \<open>(0, 1)\<close> leads to a position of value 1 from which the searching player
  wins two moves later.
\<close>

definition two_moves :: "pyfloat board" where
  "two_moves =
     Board (Fin 0)
       [((0, 0), reply 5),
        ((0, 1), Board (Fin 1) [((1, 0), Board (Fin 0) [((2, 2), won)])])]"

text \<open>Three moves, to positions of values 1, 5 and 9.\<close>

definition three_moves :: "pyfloat board" where
  "three_moves = Board (Fin 0) [((0, 0), reply 1), ((0, 1), reply 5), ((0, 2), reply 9)]"

text \<open>A position of a 3 x 3 board in which player 0 is to move and has no move left.\<close>

definition stuck_board :: "nat isolation_board" where
  "stuck_board =
     \<lparr>is_winner = (\<lambda>p. p = 1), is_loser = (\<lambda>p. p = 0),
      legal_moves_of = (\<lambda>p. if p = 0 then [] else [(2, 1)]),
      get_opponent = (\<lambda>p. 1 - p), height = 3, width = 3,
      get_blank_spaces = [(2, 1)]\<rparr>"

text \<open>A clock that never drops below the threshold of the player.\<close>

definition no_timeout :: "'a player \<Rightarrow> bool" where
  "no_timeout self = (\<forall>i. \<not> time_left self i < TIMER_THRESHOLD self)"

section \<open>Order on scores\<close>

lemma less_pyfloat_simps [simp]:
  "NegInf < Fin x" "NegInf < PosInf" "Fin x < PosInf"
  "(Fin x < Fin y) = (x < y)"
  "\<not> x' < NegInf" "\<not> PosInf < x'"
  by (cases x'; auto simp: less_pyfloat_def)+

lemma PosInf_top [simp]: "x \<le> PosInf" by (cases x) simp_all
lemma NegInf_bot [simp]: "NegInf \<le> x" by simp
lemma PosInf_le [simp]: "(PosInf \<le> x) = (x = PosInf)" by (cases x) auto
lemma le_NegInf [simp]: "(x \<le> NegInf) = (x = NegInf)" by (cases x) auto
lemma min_PosInf [simp]: "min PosInf x = x" "min x PosInf = x" by (auto simp: min_def)
lemma max_NegInf [simp]: "max NegInf x = x" "max x NegInf = x" by (auto simp: max_def)

lemmas example_defs = value_player_def steady_clock_def clock_until_def lost_def won_def
  reply_def two_moves_def three_moves_def

section \<open>The clock only advances\<close>











section \<open>The deadline check\<close>









section \<open>No legal moves\<close>

text \<open>
  C4: on a position without legal moves, when the deadline check at entry does not fire,
  \<^verbatim>\<open>minimax\<close> and \<^verbatim>\<open>alphabeta\<close> both return the sentinel \<^verbatim>\<open>(-1, -1)\<close>, at every
  depth (and for every window).
\<close>

theorem no_legal_moves_sentinel:
  assumes "get_legal_moves game = []" and "\<not> time_left self t < TIMER_THRESHOLD self"
  shows "minimax self game depth t = (Inr NO_MOVE, Suc t)
       \<and> alphabeta self game depth alpha beta t = (Inr NO_MOVE, Suc t)"
  using assms by (simp add: minimax_def alphabeta_def)

theorem no_legal_moves_sentinel_witness:
  "get_legal_moves lost = []
   \<and> \<not> time_left (value_player steady_clock) 0 < TIMER_THRESHOLD (value_player steady_clock)
   \<and> minimax (value_player steady_clock) lost 3 0 = (Inr (-1, -1), 1)
   \<and> alphabeta (value_player steady_clock) lost 3 NegInf PosInf 0 = (Inr (-1, -1), 1)"
  using no_legal_moves_sentinel[of lost "value_player steady_clock" 0 3 NegInf PosInf]
  by (simp add: example_defs get_legal_moves_def NO_MOVE_def)

section \<open>The returned move is a legal move\<close>

lemma minimax_loop_member:
  "minimax_loop self kids depth bs bm t = (Inr m, t') \<Longrightarrow> m = bm \<or> m \<in> fst ` set kids"
proof (induction kids arbitrary: bs bm t)
  case (Cons a rest)
  obtain mv s where a: "a = (mv, s)" by (cases a)
  obtain x u where c: "min_play self s (depth - 1) t = (x, u)"
    by (cases "min_play self s (depth - 1) t")
  show ?case
  proof (cases x)
    case (Inl e)
    then show ?thesis using Cons.prems a c by simp
  next
    case (Inr sc)
    show ?thesis
    proof (cases "bs < sc")
      case True
      then have "minimax_loop self rest depth sc mv u = (Inr m, t')"
        using Cons.prems a c Inr by simp
      from Cons.IH[OF this] show ?thesis using a by auto
    next
      case False
      then have "minimax_loop self rest depth bs bm u = (Inr m, t')"
        using Cons.prems a c Inr by simp
      from Cons.IH[OF this] show ?thesis using a by auto
    qed
  qed
qed simp

lemma alphabeta_loop_member:
  "alphabeta_loop self kids depth alpha beta bs bm t = (Inr m, t') \<Longrightarrow> m = bm \<or> m \<in> fst ` set kids"
proof (induction kids arbitrary: alpha bs bm t)
  case (Cons a rest)
  obtain mv s where a: "a = (mv, s)" by (cases a)
  obtain x u where c: "ab_min_play self s (depth - 1) alpha beta t = (x, u)"
    by (cases "ab_min_play self s (depth - 1) alpha beta t")
  show ?case
  proof (cases x)
    case (Inl e)
    then show ?thesis using Cons.prems a c by simp
  next
    case (Inr sc)
    show ?thesis
    proof (cases "beta < sc")
      case True
      then show ?thesis using Cons.prems a c Inr by simp
    next
      case nb: False
      show ?thesis
      proof (cases "bs < sc")
        case True
        then have "alphabeta_loop self rest depth (max alpha sc) beta sc mv u = (Inr m, t')"
          using Cons.prems a c Inr nb by simp
        from Cons.IH[OF this] show ?thesis using a by auto
      next
        case False
        then have "alphabeta_loop self rest depth (max alpha sc) beta bs bm u = (Inr m, t')"
          using Cons.prems a c Inr nb by simp
        from Cons.IH[OF this] show ?thesis using a by auto
      qed
    qed
  qed
qed simp

text \<open>
  C9: on a position with legal moves, a move that \<^verbatim>\<open>minimax\<close> or \<^verbatim>\<open>alphabeta\<close>
  returns (no cancellation raised) is an element of the list of legal moves; so it is not
  the sentinel, which is no legal move of a board.
\<close>

theorem returned_move_is_legal:
  assumes "get_legal_moves game \<noteq> []"
  shows "(minimax self game depth t = (Inr m, t') \<longrightarrow>
            m \<in> set (get_legal_moves game)
            \<and> (NO_MOVE \<notin> set (get_legal_moves game) \<longrightarrow> m \<noteq> NO_MOVE))
       \<and> (alphabeta self game depth alpha beta t = (Inr m, t') \<longrightarrow>
            m \<in> set (get_legal_moves game)
            \<and> (NO_MOVE \<notin> set (get_legal_moves game) \<longrightarrow> m \<noteq> NO_MOVE))"
proof -
  obtain m0 ms where l: "get_legal_moves game = m0 # ms"
    using assms by (cases "get_legal_moves game") auto
  have s: "fst ` set (children game) = set (get_legal_moves game)"
    by (simp add: get_legal_moves_def)
  have 1: "m \<in> set (get_legal_moves game)" if "minimax self game depth t = (Inr m, t')"
    using that l s minimax_loop_member[of self "children game" depth NegInf m0 "Suc t" m t']
    by (auto simp: minimax_def split: if_splits)
  have 2: "m \<in> set (get_legal_moves game)" if "alphabeta self game depth alpha beta t = (Inr m, t')"
    using that l s alphabeta_loop_member[of self "children game" depth alpha beta NegInf m0 "Suc t" m t']
    by (auto simp: alphabeta_def split: if_splits)
  show ?thesis using 1 2 by auto
qed

theorem returned_move_is_legal_witness:
  "get_legal_moves two_moves \<noteq> []
   \<and> minimax (value_player steady_clock) two_moves 1 0 = (Inr (0, 0), 3)
   \<and> alphabeta (value_player steady_clock) two_moves 1 NegInf PosInf 0 = (Inr (0, 0), 3)
   \<and> NO_MOVE \<notin> set (get_legal_moves two_moves)
   \<and> (0, 0) \<in> set (get_legal_moves two_moves) \<and> (0, 0) \<noteq> NO_MOVE"
  using returned_move_is_legal[of two_moves "value_player steady_clock" 1 0 "(0, 0)" 3 NegInf PosInf]
  by (simp add: example_defs alphabeta_def minimax_def get_legal_moves_def NO_MOVE_def)

section \<open>The driver of MinimaxPlayer\<close>

text \<open>
  C10: \<^verbatim>\<open>MinimaxPlayer.get_move\<close> runs one search, \<^verbatim>\<open>minimax\<close> at
  \<^verbatim>\<open>self.search_depth\<close>: it reads the clock exactly as often as that search does and
  returns its move. When the search raises \<^verbatim>\<open>SearchTimeout\<close> the result is the sentinel
  \<^verbatim>\<open>(-1, -1)\<close>, also on a position with legal moves.
\<close>

theorem MinimaxPlayer_get_move_single_search:
  "snd (MinimaxPlayer_get_move self game clock)
     = snd (minimax (self\<lparr>time_left := clock\<rparr>) game (search_depth self) 0)
   \<and> (fst (minimax (self\<lparr>time_left := clock\<rparr>) game (search_depth self) 0) = Inl SearchTimeout
        \<longrightarrow> fst (MinimaxPlayer_get_move self game clock) = NO_MOVE)
   \<and> (\<forall>m. fst (minimax (self\<lparr>time_left := clock\<rparr>) game (search_depth self) 0) = Inr m
        \<longrightarrow> fst (MinimaxPlayer_get_move self game clock) = m)"
  by (cases "minimax (self\<lparr>time_left := clock\<rparr>) game (search_depth self) 0")
    (auto simp: MinimaxPlayer_get_move_def Let_def split: sum.splits exn.splits)

theorem MinimaxPlayer_get_move_single_search_witness:
  "get_legal_moves two_moves = [(0, 0), (0, 1)]
   \<and> fst (minimax ((value_player steady_clock)\<lparr>time_left := clock_until 2\<rparr>) two_moves
         (search_depth (value_player steady_clock)) 0) = Inl SearchTimeout
   \<and> MinimaxPlayer_get_move (value_player steady_clock) two_moves (clock_until 2) = (NO_MOVE, 3)"
  using MinimaxPlayer_get_move_single_search[of "value_player steady_clock" two_moves "clock_until 2"]
  by (simp add: example_defs minimax_def get_legal_moves_def MinimaxPlayer_get_move_def)

section \<open>Alpha-beta against minimax\<close>

lemma min_value_loop_acc:
  "min_value_loop sc kids depth acc = min acc (min_value_loop sc kids depth PosInf)"
proof (induction kids arbitrary: acc)
  case (Cons a rest)
  obtain m s where a: "a = (m, s)" by (cases a)
  show ?case
    using Cons.IH[of "min acc (max_value sc s (depth - 1))"] Cons.IH[of "max_value sc s (depth - 1)"]
    by (simp add: a min.assoc)
qed simp

lemma max_value_loop_acc:
  "max_value_loop sc kids depth acc = max acc (max_value_loop sc kids depth NegInf)"
proof (induction kids arbitrary: acc)
  case (Cons a rest)
  obtain m s where a: "a = (m, s)" by (cases a)
  show ?case
    using Cons.IH[of "max acc (min_value sc s (depth - 1))"] Cons.IH[of "min_value sc s (depth - 1)"]
    by (simp add: a max.assoc)
qed simp


lemma play_value:
  "no_timeout self \<Longrightarrow> fst (min_play self g depth t) = Inr (min_value (score self) g depth)"
  "no_timeout self \<Longrightarrow>
     fst (min_play_loop self kids depth acc t) = Inr (min_value_loop (score self) kids depth acc)"
  "no_timeout self \<Longrightarrow> fst (max_play self g depth t) = Inr (max_value (score self) g depth)"
  "no_timeout self \<Longrightarrow>
     fst (max_play_loop self kids depth acc t) = Inr (max_value_loop (score self) kids depth acc)"
proof (induction self g depth t and self kids depth acc t and self g depth t and self kids depth acc t
    rule: min_play_min_play_loop_max_play_max_play_loop.induct)
  case (1 self v kids depth t)
  then show ?case by (simp add: no_timeout_def)
next
  case (3 self m s rest depth acc t)
  obtain r t' where c: "max_play self s (depth - 1) t = (r, t')"
    by (cases "max_play self s (depth - 1) t")
  have r: "r = Inr (max_value (score self) s (depth - 1))"
    using 3(1)[OF 3(3)] c by simp
  show ?case using 3(2)[OF c[symmetric] r 3(3)] c r by simp
next
  case (4 self v kids depth t)
  then show ?case by (simp add: no_timeout_def)
next
  case (6 self m s rest depth acc t)
  obtain r t' where c: "min_play self s (depth - 1) t = (r, t')"
    by (cases "min_play self s (depth - 1) t")
  have r: "r = Inr (min_value (score self) s (depth - 1))"
    using 6(1)[OF 6(3)] c by simp
  show ?case using 6(2)[OF c[symmetric] r 6(3)] c r by simp
qed simp_all

lemma min_step_break:
  fixes alpha :: "'b::linorder"
  assumes "(v1 \<le> alpha \<longrightarrow> r1 \<le> alpha) \<and> (beta \<le> v1 \<longrightarrow> beta \<le> r1) \<and> (alpha < v1 \<and> v1 < beta \<longrightarrow> r1 = v1)"
    and "min beta r1 \<le> alpha"
  shows "min beta r1 \<le> beta \<and> (min v1 vs \<le> alpha \<longrightarrow> min beta r1 \<le> alpha)
     \<and> (beta \<le> min v1 vs \<longrightarrow> min beta r1 = beta)
     \<and> (alpha < min v1 vs \<and> min v1 vs < beta \<longrightarrow> min beta r1 = min v1 vs)"
  using assms by (auto simp: min_def split: if_splits)

lemma min_step_cont:
  fixes alpha :: "'b::linorder"
  assumes "(v1 \<le> alpha \<longrightarrow> r1 \<le> alpha) \<and> (beta \<le> v1 \<longrightarrow> beta \<le> r1) \<and> (alpha < v1 \<and> v1 < beta \<longrightarrow> r1 = v1)"
    and "\<not> min beta r1 \<le> alpha"
    and "r \<le> min beta r1 \<and> (vs \<le> alpha \<longrightarrow> r \<le> alpha) \<and> (min beta r1 \<le> vs \<longrightarrow> r = min beta r1)
     \<and> (alpha < vs \<and> vs < min beta r1 \<longrightarrow> r = vs)"
  shows "r \<le> beta \<and> (min v1 vs \<le> alpha \<longrightarrow> r \<le> alpha)
     \<and> (beta \<le> min v1 vs \<longrightarrow> r = beta)
     \<and> (alpha < min v1 vs \<and> min v1 vs < beta \<longrightarrow> r = min v1 vs)"
  using assms by (auto simp: min_def split: if_splits)

lemma max_step_break:
  fixes alpha :: "'b::linorder"
  assumes "(v1 \<le> alpha \<longrightarrow> r1 \<le> alpha) \<and> (beta \<le> v1 \<longrightarrow> beta \<le> r1) \<and> (alpha < v1 \<and> v1 < beta \<longrightarrow> r1 = v1)"
    and "beta \<le> max alpha r1"
  shows "alpha \<le> max alpha r1 \<and> (beta \<le> max v1 vs \<longrightarrow> beta \<le> max alpha r1)
     \<and> (max v1 vs \<le> alpha \<longrightarrow> max alpha r1 = alpha)
     \<and> (alpha < max v1 vs \<and> max v1 vs < beta \<longrightarrow> max alpha r1 = max v1 vs)"
  using assms by (auto simp: max_def split: if_splits)

lemma max_step_cont:
  fixes alpha :: "'b::linorder"
  assumes "(v1 \<le> alpha \<longrightarrow> r1 \<le> alpha) \<and> (beta \<le> v1 \<longrightarrow> beta \<le> r1) \<and> (alpha < v1 \<and> v1 < beta \<longrightarrow> r1 = v1)"
    and "\<not> beta \<le> max alpha r1"
    and "max alpha r1 \<le> r \<and> (beta \<le> vs \<longrightarrow> beta \<le> r) \<and> (vs \<le> max alpha r1 \<longrightarrow> r = max alpha r1)
     \<and> (max alpha r1 < vs \<and> vs < beta \<longrightarrow> r = vs)"
  shows "alpha \<le> r \<and> (beta \<le> max v1 vs \<longrightarrow> beta \<le> r)
     \<and> (max v1 vs \<le> alpha \<longrightarrow> r = alpha)
     \<and> (alpha < max v1 vs \<and> max v1 vs < beta \<longrightarrow> r = max v1 vs)"
  using assms by (auto simp: max_def split: if_splits)

lemma ab_play_value:
  "no_timeout self \<Longrightarrow>
     \<exists>r. fst (ab_min_play self g depth alpha beta t) = Inr r
        \<and> window_ok alpha beta (min_value (score self) g depth) r"
  "no_timeout self \<Longrightarrow> beta \<le> acc \<Longrightarrow>
     \<exists>r. fst (ab_min_play_loop self kids depth alpha beta acc t) = Inr r
        \<and> min_loop_ok alpha beta (min_value_loop (score self) kids depth PosInf) r"
  "no_timeout self \<Longrightarrow>
     \<exists>r. fst (ab_max_play self g depth alpha beta t) = Inr r
        \<and> window_ok alpha beta (max_value (score self) g depth) r"
  "no_timeout self \<Longrightarrow> acc \<le> alpha \<Longrightarrow>
     \<exists>r. fst (ab_max_play_loop self kids depth alpha beta acc t) = Inr r
        \<and> max_loop_ok alpha beta (max_value_loop (score self) kids depth NegInf) r"
proof (induction self g depth alpha beta t and self kids depth alpha beta acc t
    and self g depth alpha beta t and self kids depth alpha beta acc t
    rule: ab_min_play_ab_min_play_loop_ab_max_play_ab_max_play_loop.induct)
  case (1 self v kids depth alpha beta t)
  have nt: "\<not> time_left self t < TIMER_THRESHOLD self"
    using "1.prems" by (simp add: no_timeout_def)
  show ?case
  proof (cases "depth = 0 \<or> kids = []")
    case True
    then show ?thesis using nt by (auto simp: window_ok_def)
  next
    case False
    from "1.IH"[OF nt False "1.prems"]
    obtain r where r: "fst (ab_min_play_loop self kids depth alpha beta PosInf (Suc t)) = Inr r"
      "min_loop_ok alpha beta (min_value_loop (score self) kids depth PosInf) r"
      by auto
    have "window_ok alpha beta (min_value_loop (score self) kids depth PosInf) r"
      using r(2) by (auto simp: window_ok_def min_loop_ok_def)
    then show ?thesis using nt False r(1) by simp
  qed
next
  case (2 self depth alpha beta acc t)
  then show ?case by (simp add: min_loop_ok_def)
next
  case (3 self m s rest depth alpha beta acc t)
  obtain x t' where c: "ab_max_play self s (depth - 1) alpha beta t = (x, t')"
    by (cases "ab_max_play self s (depth - 1) alpha beta t")
  let ?v1 = "max_value (score self) s (depth - 1)"
  let ?vs = "min_value_loop (score self) rest depth PosInf"
  from "3.IH"(1)[OF "3.prems"(1)] c
  obtain r1 where r1: "x = Inr r1" "window_ok alpha beta ?v1 r1" by auto
  have b': "min beta (min acc r1) = min beta r1"
    using "3.prems"(2) by (auto simp: min_def)
  have vv: "min_value_loop (score self) ((m, s) # rest) depth PosInf = min ?v1 ?vs"
    using min_value_loop_acc[of "score self" rest depth ?v1] by simp
  show ?case
  proof (cases "min beta r1 \<le> alpha")
    case True
    have "min_loop_ok alpha beta (min ?v1 ?vs) (min beta r1)"
      unfolding min_loop_ok_def
      by (rule min_step_break) (use r1(2) True in \<open>simp_all add: window_ok_def\<close>)
    then show ?thesis using c r1(1) b' True vv by (simp add: Let_def)
  next
    case False
    have le: "min beta r1 \<le> min acc r1" using "3.prems"(2) by (auto simp: min_def)
    from "3.IH"(2)[OF c[symmetric] r1(1) refl b'[symmetric] False "3.prems"(1) le]
    obtain r where r: "fst (ab_min_play_loop self rest depth alpha (min beta r1) (min acc r1) t') = Inr r"
      "min_loop_ok alpha (min beta r1) ?vs r" by auto
    have "min_loop_ok alpha beta (min ?v1 ?vs) r"
      unfolding min_loop_ok_def
      by (rule min_step_cont[where ?r1.0 = r1])
        (use r1(2) False r(2) in \<open>simp_all add: window_ok_def min_loop_ok_def\<close>)
    then show ?thesis using c r1(1) b' False vv r(1) by (simp add: Let_def)
  qed
next
  case (4 self v kids depth alpha beta t)
  have nt: "\<not> time_left self t < TIMER_THRESHOLD self"
    using "4.prems" by (simp add: no_timeout_def)
  show ?case
  proof (cases "depth = 0 \<or> kids = []")
    case True
    then show ?thesis using nt by (auto simp: window_ok_def)
  next
    case False
    from "4.IH"[OF nt False "4.prems"]
    obtain r where r: "fst (ab_max_play_loop self kids depth alpha beta NegInf (Suc t)) = Inr r"
      "max_loop_ok alpha beta (max_value_loop (score self) kids depth NegInf) r"
      by auto
    have "window_ok alpha beta (max_value_loop (score self) kids depth NegInf) r"
      using r(2) by (auto simp: window_ok_def max_loop_ok_def)
    then show ?thesis using nt False r(1) by simp
  qed
next
  case (5 self depth alpha beta acc t)
  then show ?case by (simp add: max_loop_ok_def)
next
  case (6 self m s rest depth alpha beta acc t)
  obtain x t' where c: "ab_min_play self s (depth - 1) alpha beta t = (x, t')"
    by (cases "ab_min_play self s (depth - 1) alpha beta t")
  let ?v1 = "min_value (score self) s (depth - 1)"
  let ?vs = "max_value_loop (score self) rest depth NegInf"
  from "6.IH"(1)[OF "6.prems"(1)] c
  obtain r1 where r1: "x = Inr r1" "window_ok alpha beta ?v1 r1" by auto
  have a': "max alpha (max acc r1) = max alpha r1"
    using "6.prems"(2) by (auto simp: max_def)
  have vv: "max_value_loop (score self) ((m, s) # rest) depth NegInf = max ?v1 ?vs"
    using max_value_loop_acc[of "score self" rest depth ?v1] by simp
  show ?case
  proof (cases "beta \<le> max alpha r1")
    case True
    have "max_loop_ok alpha beta (max ?v1 ?vs) (max alpha r1)"
      unfolding max_loop_ok_def
      by (rule max_step_break) (use r1(2) True in \<open>simp_all add: window_ok_def\<close>)
    then show ?thesis using c r1(1) a' True vv by (simp add: Let_def)
  next
    case False
    have le: "max acc r1 \<le> max alpha r1" using "6.prems"(2) by (auto simp: max_def)
    from "6.IH"(2)[OF c[symmetric] r1(1) refl a'[symmetric] False "6.prems"(1) le]
    obtain r where r: "fst (ab_max_play_loop self rest depth (max alpha r1) beta (max acc r1) t') = Inr r"
      "max_loop_ok (max alpha r1) beta ?vs r" by auto
    have "max_loop_ok alpha beta (max ?v1 ?vs) r"
      unfolding max_loop_ok_def
      by (rule max_step_cont[where ?r1.0 = r1])
        (use r1(2) False r(2) in \<open>simp_all add: window_ok_def max_loop_ok_def\<close>)
    then show ?thesis using c r1(1) a' False vv r(1) by (simp add: Let_def)
  qed
qed

lemma minimax_loop_returns:
  "no_timeout self \<Longrightarrow> \<exists>m. fst (minimax_loop self kids depth bs bm t) = Inr m"
proof (induction kids arbitrary: bs bm t)
  case (Cons a rest)
  obtain mv s where a: "a = (mv, s)" by (cases a)
  obtain x t' where c: "min_play self s (depth - 1) t = (x, t')"
    by (cases "min_play self s (depth - 1) t")
  have x: "x = Inr (min_value (score self) s (depth - 1))"
    using play_value(1)[OF Cons.prems, of s "depth - 1" t] c by simp
  show ?case
    using Cons.IH[OF Cons.prems] a c x by simp
qed simp

lemma root_loops_agree:
  "no_timeout self \<Longrightarrow>
     fst (alphabeta_loop self kids depth bs PosInf bs bm t) = fst (minimax_loop self kids depth bs bm t2)"
proof (induction kids arbitrary: bs bm t t2)
  case (Cons a rest)
  obtain mv s where a: "a = (mv, s)" by (cases a)
  let ?v = "min_value (score self) s (depth - 1)"
  obtain x t' where c: "min_play self s (depth - 1) t2 = (x, t')"
    by (cases "min_play self s (depth - 1) t2")
  have x: "x = Inr ?v"
    using play_value(1)[OF Cons.prems, of s "depth - 1" t2] c by simp
  obtain y u' where d: "ab_min_play self s (depth - 1) bs PosInf t = (y, u')"
    by (cases "ab_min_play self s (depth - 1) bs PosInf t")
  from ab_play_value(1)[OF Cons.prems, of s "depth - 1" bs PosInf t] d
  obtain r where r: "y = Inr r" "window_ok bs PosInf ?v r" by auto
  show ?case
  proof (cases "bs < ?v")
    case True
    have rv: "r = ?v"
    proof (cases "?v = PosInf")
      case True
      then show ?thesis using r(2) by (simp add: window_ok_def)
    next
      case False
      then have "?v < PosInf" by (cases ?v) simp_all
      then show ?thesis using r(2) True by (simp add: window_ok_def)
    qed
    have m: "max bs ?v = ?v" using True by (auto simp: max_def)
    show ?thesis
      using Cons.IH[OF Cons.prems, of ?v mv u' t'] a c x d r(1) rv True m by simp
  next
    case False
    then have le: "r \<le> bs" using r(2) by (simp add: window_ok_def)
    then have m: "max bs r = bs" "\<not> bs < r" by (auto simp: max_def)
    show ?thesis
      using Cons.IH[OF Cons.prems, of bs bm u' t'] a c x d r(1) False m by simp
  qed
qed simp

text \<open>
  C1: under a clock that never drops below the threshold, \<^verbatim>\<open>alphabeta\<close> with the
  unbounded window (\<open>alpha\<close> minus infinity, \<open>beta\<close> plus infinity) returns the same
  move as \<^verbatim>\<open>minimax\<close> on the same position and depth, for every depth (in particular
  for every depth from 0 on).
\<close>

theorem alphabeta_same_move_as_minimax:
  assumes "\<forall>i. TIMER_THRESHOLD self \<le> time_left self i"
  shows "\<exists>m. fst (alphabeta self game depth NegInf PosInf t) = Inr m
            \<and> fst (minimax self game depth t) = Inr m"
proof -
  have nt: "no_timeout self" using assms by (auto simp: no_timeout_def not_less)
  then have e: "\<not> time_left self t < TIMER_THRESHOLD self" by (simp add: no_timeout_def)
  show ?thesis
  proof (cases "get_legal_moves game")
    case Nil
    then show ?thesis using e by (simp add: alphabeta_def minimax_def)
  next
    case (Cons m0 ms)
    from minimax_loop_returns[OF nt, of "children game" depth NegInf m0 "Suc t"]
    obtain m where m: "fst (minimax_loop self (children game) depth NegInf m0 (Suc t)) = Inr m" ..
    then show ?thesis
      using e Cons root_loops_agree[OF nt, of "children game" depth NegInf m0 "Suc t" "Suc t"]
      by (simp add: alphabeta_def minimax_def)
  qed
qed

theorem alphabeta_same_move_as_minimax_witness:
  "(\<forall>i. TIMER_THRESHOLD (value_player steady_clock) \<le> time_left (value_player steady_clock) i)
   \<and> fst (alphabeta (value_player steady_clock) two_moves 2 NegInf PosInf 0) = Inr (0, 1)
   \<and> fst (minimax (value_player steady_clock) two_moves 2 0) = Inr (0, 1)"
  using alphabeta_same_move_as_minimax[of "value_player steady_clock" two_moves 2 0]
  by (simp add: example_defs alphabeta_def minimax_def get_legal_moves_def)

section \<open>The root of alphabeta and a score above beta\<close>

lemma alphabeta_loop_after_prefix:
  "alphabeta_prefix self pre depth alpha beta bs bm t = Some (a, bs', bm', t') \<Longrightarrow>
     alphabeta_loop self (pre @ rest) depth alpha beta bs bm t
       = alphabeta_loop self rest depth a beta bs' bm' t'"
proof (induction pre arbitrary: alpha bs bm t)
  case (Cons x pre)
  obtain mv s where x: "x = (mv, s)" by (cases x)
  obtain y u where c: "ab_min_play self s (depth - 1) alpha beta t = (y, u)"
    by (cases "ab_min_play self s (depth - 1) alpha beta t")
  show ?case
  proof (cases y)
    case (Inl e)
    then show ?thesis using Cons.prems x c by simp
  next
    case (Inr sc)
    show ?thesis
    proof (cases "beta < sc")
      case True
      then show ?thesis using Cons.prems x c Inr by simp
    next
      case nb: False
      show ?thesis
      proof (cases "bs < sc")
        case True
        then have "alphabeta_prefix self pre depth (max alpha sc) beta sc mv u = Some (a, bs', bm', t')"
          using Cons.prems x c Inr nb by simp
        from Cons.IH[OF this] show ?thesis using x c Inr nb True by simp
      next
        case False
        then have "alphabeta_prefix self pre depth (max alpha sc) beta bs bm u = Some (a, bs', bm', t')"
          using Cons.prems x c Inr nb by simp
        from Cons.IH[OF this] show ?thesis using x c Inr nb False by simp
      qed
    qed
  qed
qed simp

text \<open>
  C8: for every window the caller passes to \<^verbatim>\<open>alphabeta\<close>: when the loop over the legal
  moves has gone through the moves before \<open>m\<close> (none of them scored above \<open>beta\<close> and
  no search raised) and the score of the child of \<open>m\<close> is strictly above the \<open>beta\<close>
  that was passed, \<^verbatim>\<open>alphabeta\<close> returns \<open>m\<close> at once: the clock stands where the
  search of that child left it, and the moves after \<open>m\<close> play no part.
\<close>

theorem alphabeta_returns_first_child_above_beta:
  assumes "\<not> time_left self t < TIMER_THRESHOLD self"
    and "get_legal_moves game = m0 # ms"
    and "children game = pre @ (m, s) # post"
    and "alphabeta_prefix self pre depth alpha beta NegInf m0 (Suc t) = Some (a, bs, bm, t1)"
    and "ab_min_play self s (depth - 1) a beta t1 = (Inr sc, t2)"
    and "beta < sc"
  shows "alphabeta self game depth alpha beta t = (Inr m, t2)"
proof -
  have "alphabeta_loop self (pre @ (m, s) # post) depth alpha beta NegInf m0 (Suc t)
          = alphabeta_loop self ((m, s) # post) depth a beta bs bm t1"
    by (rule alphabeta_loop_after_prefix[OF assms(4)])
  also have "\<dots> = (Inr m, t2)"
    using assms(5,6) by simp
  finally show ?thesis
    using assms(1,2,3) by (simp add: alphabeta_def)
qed

theorem alphabeta_returns_first_child_above_beta_witness:
  "\<not> time_left (value_player steady_clock) 0 < TIMER_THRESHOLD (value_player steady_clock)
   \<and> get_legal_moves three_moves = (0, 0) # [(0, 1), (0, 2)]
   \<and> children three_moves = [((0, 0), reply 1)] @ ((0, 1), reply 5) # [((0, 2), reply 9)]
   \<and> alphabeta_prefix (value_player steady_clock) [((0, 0), reply 1)] 1 NegInf (Fin 3) NegInf (0, 0)
        (Suc 0) = Some (Fin 1, Fin 1, (0, 0), 2)
   \<and> ab_min_play (value_player steady_clock) (reply 5) (1 - 1) (Fin 1) (Fin 3) 2 = (Inr (Fin 5), 3)
   \<and> Fin 3 < Fin 5
   \<and> alphabeta (value_player steady_clock) three_moves 1 NegInf (Fin 3) 0 = (Inr (0, 1), 3)"
proof -
  have 1: "\<not> time_left (value_player steady_clock) 0 < TIMER_THRESHOLD (value_player steady_clock)"
    by (simp add: example_defs)
  have 2: "get_legal_moves three_moves = (0, 0) # [(0, 1), (0, 2)]"
    by (simp add: example_defs get_legal_moves_def)
  have 3: "children three_moves = [((0, 0), reply 1)] @ ((0, 1), reply 5) # [((0, 2), reply 9)]"
    by (simp add: example_defs)
  have 4: "alphabeta_prefix (value_player steady_clock) [((0, 0), reply 1)] 1 NegInf (Fin 3) NegInf
        (0, 0) (Suc 0) = Some (Fin 1, Fin 1, (0, 0), 2)"
    by (simp add: example_defs)
  have 5: "ab_min_play (value_player steady_clock) (reply 5) (1 - 1) (Fin 1) (Fin 3) 2
        = (Inr (Fin 5), 3)"
    by (simp add: example_defs)
  have 6: "Fin 3 < Fin 5" by simp
  show ?thesis
    using alphabeta_returns_first_child_above_beta[OF 1 2 3 4 5 6] 1 2 3 4 5 6 by simp
qed

section \<open>A search of one ply\<close>

lemma min_play_depth_0:
  "no_timeout self \<Longrightarrow> min_play self s 0 t = (Inr (score self s), Suc t)"
  by (cases s) (simp add: no_timeout_def)

lemma highest_value_Max: "xs \<noteq> [] \<Longrightarrow> highest_value xs = Max (set xs)"
proof (induction xs)
  case (Cons x xs)
  show ?case
  proof (cases "xs = []")
    case True
    then show ?thesis by simp
  next
    case False
    then show ?thesis using Cons.IH by (simp add: max.commute)
  qed
qed simp

lemma minimax_loop_depth_1:
  assumes "no_timeout self"
  shows "(\<not> bs < highest_value (map (\<lambda>(m, s). score self s) kids) \<longrightarrow>
            fst (minimax_loop self kids 1 bs bm t) = Inr bm)
       \<and> (bs < highest_value (map (\<lambda>(m, s). score self s) kids) \<longrightarrow>
            (\<exists>m. fst (minimax_loop self kids 1 bs bm t) = Inr m
               \<and> first_with (score self) (highest_value (map (\<lambda>(m, s). score self s) kids)) kids
                   = Some m))"
proof (induction kids arbitrary: bs bm t)
  case Nil
  show ?case by simp
next
  case (Cons x rest)
  obtain mv s where x: "x = (mv, s)" by (cases x)
  let ?v = "score self s"
  let ?h = "highest_value (map (\<lambda>(m, s). score self s) rest)"
  have c: "min_play self s (1 - 1) t = (Inr ?v, Suc t)"
    using min_play_depth_0[OF assms] by simp
  show ?case
  proof (cases "bs < ?v")
    case True
    have l: "minimax_loop self (x # rest) 1 bs bm t = minimax_loop self rest 1 ?v mv (Suc t)"
      using x c True by simp
    show ?thesis
    proof (cases "?v < ?h")
      case h: True
      then have "max ?v ?h = ?h" "?v \<noteq> ?h" "bs < ?h" using True by (auto simp: max_def)
      then show ?thesis using Cons.IH[of ?v mv "Suc t"] l h x by simp
    next
      case h: False
      then have "max ?v ?h = ?v" by (auto simp: max_def)
      then show ?thesis using Cons.IH[of ?v mv "Suc t"] l h x True by simp
    qed
  next
    case False
    have l: "minimax_loop self (x # rest) 1 bs bm t = minimax_loop self rest 1 bs bm (Suc t)"
      using x c False by simp
    show ?thesis
    proof (cases "bs < ?h")
      case h: True
      then have "max ?v ?h = ?h" "?v \<noteq> ?h" using False by (auto simp: max_def)
      then show ?thesis using Cons.IH[of bs bm "Suc t"] l h x by simp
    next
      case h: False
      then have "\<not> bs < max ?v ?h" using False by (auto simp: max_def)
      then show ?thesis using Cons.IH[of bs bm "Suc t"] l h x by simp
    qed
  qed
qed

text \<open>
  C5, as the code has it: with at least one legal move and a clock that never drops below
  the threshold, \<^verbatim>\<open>minimax\<close> called with depth 1 returns the first legal move, in
  enumeration order, whose successor has the highest heuristic value \<^verbatim>\<open>self.score\<close>.
  (\<^verbatim>\<open>min_play\<close> is entered with \<^verbatim>\<open>depth - 1\<close>, and evaluates the successor when that
  is 0.)
\<close>

theorem minimax_depth_1_first_highest:
  assumes "\<forall>i. TIMER_THRESHOLD self \<le> time_left self i"
    and "get_legal_moves game \<noteq> []"
  shows "\<exists>m. fst (minimax self game 1 t) = Inr m
           \<and> first_highest (score self) (children game) = Some m"
proof -
  have nt: "no_timeout self" using assms(1) by (auto simp: no_timeout_def not_less)
  then have e: "\<not> time_left self t < TIMER_THRESHOLD self" by (simp add: no_timeout_def)
  obtain mv s rest where k: "children game = (mv, s) # rest"
    using assms(2) by (cases "children game") (auto simp: get_legal_moves_def)
  let ?h = "highest_value (map (\<lambda>(m, s). score self s) (children game))"
  have m: "minimax self game 1 t = minimax_loop self (children game) 1 NegInf mv (Suc t)"
    using e k by (simp add: minimax_def get_legal_moves_def)
  show ?thesis
  proof (cases "NegInf < ?h")
    case True
    then show ?thesis
      using minimax_loop_depth_1[OF nt, of NegInf "children game" mv "Suc t"] m
      by (simp add: first_highest_def)
  next
    case False
    then have h: "?h = NegInf" by (cases ?h) simp_all
    then have "score self s = NegInf" using k by (simp add: max_def split: if_splits)
    then have "first_highest (score self) (children game) = Some mv"
      using h k by (simp add: first_highest_def)
    then show ?thesis
      using minimax_loop_depth_1[OF nt, of NegInf "children game" mv "Suc t"] m False by simp
  qed
qed

theorem minimax_depth_1_first_highest_witness:
  "(\<forall>i. TIMER_THRESHOLD (value_player steady_clock) \<le> time_left (value_player steady_clock) i)
   \<and> get_legal_moves two_moves \<noteq> []
   \<and> fst (minimax (value_player steady_clock) two_moves 1 0) = Inr (0, 0)
   \<and> first_highest (score (value_player steady_clock)) (children two_moves) = Some (0, 0)"
  using minimax_depth_1_first_highest[of "value_player steady_clock" two_moves 0]
  by (simp add: example_defs minimax_def get_legal_moves_def first_highest_def)

text \<open>
  C5 as stated, with depth 0, fails: on \<open>two_moves\<close> the successor of \<open>(0, 0)\<close> has the
  highest heuristic value, 5 against 1, but \<^verbatim>\<open>minimax\<close> at depth 0 enters
  \<^verbatim>\<open>min_play\<close> at depth \<open>-1\<close>, where \<^verbatim>\<open>depth == 0\<close> never holds, searches to the end
  of the game and returns \<open>(0, 1)\<close>.
\<close>

theorem minimax_depth_0_counterexample:
  "(\<forall>i. TIMER_THRESHOLD (value_player steady_clock) \<le> time_left (value_player steady_clock) i)
   \<and> get_legal_moves two_moves = [(0, 0), (0, 1)]
   \<and> fst (minimax (value_player steady_clock) two_moves 0 0) = Inr (0, 1)
   \<and> first_highest (score (value_player steady_clock)) (children two_moves) = Some (0, 0)"
  by (simp add: example_defs minimax_def get_legal_moves_def first_highest_def)

section \<open>The driver of AlphaBetaPlayer\<close>

text \<open>
  C2, as the code has it: when the search of depth 1 is cancelled,
  \<^verbatim>\<open>AlphaBetaPlayer.get_move\<close> returns the first legal move \<^verbatim>\<open>legal_moves[0]\<close> of a
  position that has legal moves; the sentinel \<^verbatim>\<open>(-1, -1)\<close> is returned for a position
  without legal moves.
\<close>

theorem AlphaBetaPlayer_get_move_cancelled_at_depth_1:
  assumes "fst (alphabeta (self\<lparr>time_left := clock\<rparr>) game 1 NegInf PosInf 0) = Inl SearchTimeout"
  shows "AlphaBetaPlayer_get_move self game clock
           = Some (case get_legal_moves game of [] \<Rightarrow> NO_MOVE | m0 # ms \<Rightarrow> m0)"
proof (cases "get_legal_moves game")
  case Nil
  then show ?thesis by (simp add: AlphaBetaPlayer_get_move_def)
next
  case (Cons m0 ms)
  obtain x t' where c: "alphabeta (self\<lparr>time_left := clock\<rparr>) game 1 NegInf PosInf 0 = (x, t')"
    by (cases "alphabeta (self\<lparr>time_left := clock\<rparr>) game 1 NegInf PosInf 0")
  then have x: "x = Inl SearchTimeout" using assms by simp
  have "AlphaBetaPlayer_deepen (self\<lparr>time_left := clock\<rparr>) game 1 m0 0 = Some m0"
    by (subst AlphaBetaPlayer_deepen.simps) (simp add: c x)
  then show ?thesis using Cons by (simp add: AlphaBetaPlayer_get_move_def)
qed

theorem AlphaBetaPlayer_get_move_cancelled_at_depth_1_witness:
  "fst (alphabeta ((value_player steady_clock)\<lparr>time_left := clock_until 2\<rparr>) two_moves 1
         NegInf PosInf 0) = Inl SearchTimeout
   \<and> AlphaBetaPlayer_get_move (value_player steady_clock) two_moves (clock_until 2) = Some (0, 0)"
  using AlphaBetaPlayer_get_move_cancelled_at_depth_1[where self = "value_player steady_clock"
      and clock = "clock_until 2" and game = two_moves]
  by (simp add: example_defs alphabeta_def get_legal_moves_def)

text \<open>
  C2 as stated fails: on \<open>two_moves\<close>, which has two legal moves, the search of depth 1
  is cancelled at its third reading of the clock (on entering the second child) and
  \<^verbatim>\<open>get_move\<close> returns \<open>(0, 0)\<close>, not the sentinel.
\<close>

theorem AlphaBetaPlayer_get_move_sentinel_counterexample:
  "get_legal_moves two_moves = [(0, 0), (0, 1)]
   \<and> fst (alphabeta ((value_player steady_clock)\<lparr>time_left := clock_until 2\<rparr>) two_moves 1
         NegInf PosInf 0) = Inl SearchTimeout
   \<and> AlphaBetaPlayer_get_move (value_player steady_clock) two_moves (clock_until 2) = Some (0, 0)
   \<and> AlphaBetaPlayer_get_move (value_player steady_clock) two_moves (clock_until 2) \<noteq> Some NO_MOVE"
proof -
  have c: "alphabeta ((value_player steady_clock)\<lparr>time_left := clock_until 2\<rparr>) two_moves 1
         NegInf PosInf 0 = (Inl SearchTimeout, 3)"
    by (simp add: example_defs alphabeta_def get_legal_moves_def)
  have "AlphaBetaPlayer_deepen ((value_player steady_clock)\<lparr>time_left := clock_until 2\<rparr>)
          two_moves 1 (0, 0) 0 = Some (0, 0)"
    by (subst AlphaBetaPlayer_deepen.simps) (simp add: c)
  then have g: "AlphaBetaPlayer_get_move (value_player steady_clock) two_moves (clock_until 2)
      = Some (0, 0)"
    by (simp add: AlphaBetaPlayer_get_move_def get_legal_moves_def two_moves_def)
  show ?thesis using c g by (simp add: get_legal_moves_def two_moves_def NO_MOVE_def)
qed

lemma deepen_from_state:
  "deepen_state self game m0 j = Some (b, t) \<Longrightarrow>
     AlphaBetaPlayer_deepen self game 1 m0 0 = AlphaBetaPlayer_deepen self game (int j + 1) b t"
proof (induction j arbitrary: b t)
  case 0
  then show ?case by simp
next
  case (Suc j)
  from Suc.prems obtain b0 t0 where s: "deepen_state self game m0 j = Some (b0, t0)"
    by (auto split: option.splits)
  from Suc.prems s have a: "alphabeta self game (int j + 1) NegInf PosInf t0 = (Inr b, t)"
    by (auto split: prod.splits sum.splits)
  have "AlphaBetaPlayer_deepen self game (int j + 1) b0 t0
          = AlphaBetaPlayer_deepen self game (int j + 1 + 1) b t"
    by (subst AlphaBetaPlayer_deepen.simps) (simp add: a)
  then show ?case using Suc.IH[OF s] by (simp add: add.commute add.left_commute)
qed

text \<open>
  C3: for every \<open>k\<close> from 1 on: when \<^verbatim>\<open>get_move\<close> reaches its search of depth \<open>k\<close>
  (the searches of depths 1 to \<open>k - 1\<close> completed, leaving the loop in state \<open>(b, t)\<close>),
  that search returns the move \<open>m\<close>, and the search of depth \<open>k + 1\<close> raises
  \<^verbatim>\<open>SearchTimeout\<close>, then \<^verbatim>\<open>get_move\<close> returns \<open>m\<close>.
\<close>

theorem AlphaBetaPlayer_get_move_keeps_completed_depth:
  assumes "get_legal_moves game = m0 # ms"
    and "1 \<le> k"
    and "deepen_state (self\<lparr>time_left := clock\<rparr>) game m0 (k - 1) = Some (b, t)"
    and "alphabeta (self\<lparr>time_left := clock\<rparr>) game (int k) NegInf PosInf t = (Inr m, t')"
    and "fst (alphabeta (self\<lparr>time_left := clock\<rparr>) game (int k + 1) NegInf PosInf t')
           = Inl SearchTimeout"
  shows "AlphaBetaPlayer_get_move self game clock = Some m"
proof -
  let ?self = "self\<lparr>time_left := clock\<rparr>"
  have k: "int (k - 1) + 1 = int k" using assms(2) by simp
  obtain x t'' where c: "alphabeta ?self game (int k + 1) NegInf PosInf t' = (x, t'')"
    by (cases "alphabeta ?self game (int k + 1) NegInf PosInf t'")
  then have x: "x = Inl SearchTimeout" using assms(5) by simp
  have 1: "AlphaBetaPlayer_deepen ?self game (int k + 1) m t' = Some m"
    by (subst AlphaBetaPlayer_deepen.simps) (simp add: c x)
  have 2: "AlphaBetaPlayer_deepen ?self game (int k) b t
             = AlphaBetaPlayer_deepen ?self game (int k + 1) m t'"
    by (subst AlphaBetaPlayer_deepen.simps) (simp add: assms(4))
  have "AlphaBetaPlayer_deepen ?self game 1 m0 0 = AlphaBetaPlayer_deepen ?self game (int k) b t"
    using deepen_from_state[OF assms(3)] k by simp
  then show ?thesis using 1 2 assms(1) by (simp add: AlphaBetaPlayer_get_move_def)
qed

theorem AlphaBetaPlayer_get_move_keeps_completed_depth_witness:
  "get_legal_moves two_moves = (0, 0) # [(0, 1)]
   \<and> (1::nat) \<le> 2
   \<and> deepen_state ((value_player steady_clock)\<lparr>time_left := clock_until 10\<rparr>) two_moves (0, 0) (2 - 1)
        = Some ((0, 0), 3)
   \<and> alphabeta ((value_player steady_clock)\<lparr>time_left := clock_until 10\<rparr>) two_moves (int 2)
        NegInf PosInf 3 = (Inr (0, 1), 8)
   \<and> fst (alphabeta ((value_player steady_clock)\<lparr>time_left := clock_until 10\<rparr>) two_moves (int 2 + 1)
        NegInf PosInf 8) = Inl SearchTimeout
   \<and> AlphaBetaPlayer_get_move (value_player steady_clock) two_moves (clock_until 10) = Some (0, 1)"
proof -
  have s: "deepen_state ((value_player steady_clock)\<lparr>time_left := clock_until 10\<rparr>) two_moves (0, 0)
       (2 - 1) = Some ((0, 0), 3)"
    by (simp add: example_defs alphabeta_def get_legal_moves_def)
  have a: "alphabeta ((value_player steady_clock)\<lparr>time_left := clock_until 10\<rparr>) two_moves (int 2)
        NegInf PosInf 3 = (Inr (0, 1), 8)"
    by (simp add: example_defs alphabeta_def get_legal_moves_def)
  have b: "fst (alphabeta ((value_player steady_clock)\<lparr>time_left := clock_until 10\<rparr>) two_moves
        (int 2 + 1) NegInf PosInf 8) = Inl SearchTimeout"
    by (simp add: example_defs alphabeta_def get_legal_moves_def)
  have l: "get_legal_moves two_moves = (0, 0) # [(0, 1)]"
    by (simp add: get_legal_moves_def two_moves_def)
  show ?thesis
    using AlphaBetaPlayer_get_move_keeps_completed_depth[OF l _ s a b] s a b l by simp
qed

section \<open>The evaluators on decided positions\<close>

lemma evaluators_winner:
  assumes "is_winner game player"
  shows "opp_diff game player = PyFloat PosInf"
    and "opp_diff_defensive game player = PyFloat PosInf"
    and "opp_diff_aggressive game player = PyFloat PosInf"
    and "opp_diff_decay game player = Inr (PyFloat PosInf)"
  using assms
  by (simp_all add: opp_diff_def opp_diff_defensive_def opp_diff_aggressive_def opp_diff_decay_def)

lemma evaluators_loser:
  assumes "\<not> is_winner game player" and "is_loser game player"
  shows "opp_diff game player = PyFloat NegInf"
    and "opp_diff_defensive game player = PyFloat NegInf"
    and "opp_diff_decay game player = Inr (PyFloat NegInf)"
  using assms
  by (simp_all add: opp_diff_def opp_diff_defensive_def opp_diff_decay_def)

lemma evaluators_undecided:
  assumes "\<not> is_winner game player" and "\<not> is_loser game player"
  shows "\<exists>x. opp_diff game player = PyFloat (Fin x)"
    and "\<exists>x. opp_diff_defensive game player = PyFloat (Fin x)"
    and "\<exists>x. opp_diff_aggressive game player = PyFloat (Fin x)"
    and "height game * width game \<noteq> 0 \<Longrightarrow> \<exists>x. opp_diff_decay game player = Inr (PyFloat (Fin x))"
  using assms
  by (simp_all add: opp_diff_def opp_diff_defensive_def opp_diff_aggressive_def opp_diff_decay_def
      Let_def)

text \<open>
  C7: an evaluator is to return minus infinity, as a number, for a player who has lost.
  \<^verbatim>\<open>opp_diff_aggressive\<close> returns the string \<^verbatim>\<open>'-inf'\<close> instead: its loss branch is
  \<^verbatim>\<open>return ('-inf')\<close> where the other three evaluators have
  \<^verbatim>\<open>return float('-inf')\<close>. Player 0 has lost on \<open>stuck_board\<close>.
\<close>

theorem opp_diff_aggressive_loser_string:
  "is_loser stuck_board 0 \<and> \<not> is_winner stuck_board 0
   \<and> opp_diff_aggressive stuck_board 0 = PyStr ''-inf''
   \<and> opp_diff_aggressive stuck_board 0 \<noteq> PyFloat NegInf"
  by (simp add: stuck_board_def opp_diff_aggressive_def)

end
